theory Spec2Isabelle
  imports Main "HOL-Library.Word"
begin

unbundle bit_operations_syntax

section \<open>rtest: re-running go test on file changes\<close>

text \<open>
  A shallow embedding of \<^verbatim>\<open>main.go\<close>. The program talks to four collaborators
  that are not part of the repository: the filesystem (\<^verbatim>\<open>os.Stat\<close>,
  \<^verbatim>\<open>filepath.Walk\<close>), the fsnotify watcher, the clock and the external
  \<^verbatim>\<open>go test\<close> process. Their answers are inputs of the model; everything the
  program does to them is recorded, in order, in a trace.
\<close>

subsection \<open>Errors, configuration and the observable trace\<close>

datatype error =
    SkipDir
  | OsError string
  | WatchError string
  | LaunchError string
  | ExitError int
  | Wrap string error

text \<open>\<^verbatim>\<open>errors.Wrap\<close> and \<^verbatim>\<open>errors.Wrapf\<close> of pkg/errors: nil stays nil.\<close>

fun errors_Wrap :: "error option \<Rightarrow> string \<Rightarrow> error option" where
  "errors_Wrap None msg = None"
| "errors_Wrap (Some e) msg = Some (Wrap msg e)"

text \<open>The flags: \<^verbatim>\<open>*flagDebug\<close> and \<^verbatim>\<open>flag.Args()\<close>, fixed after \<^verbatim>\<open>flag.Parse()\<close>.\<close>

record config =
  flagDebug :: bool
  flagArgs :: "string list"

text \<open>An operand of \<^verbatim>\<open>fmt.Fprintln\<close>: a string or an error value.\<close>

datatype arg = S string | E error

datatype action =
    DebugOut "arg list"
  | ErrOut "arg list"
  | Stat string
  | AddWatch string
  | RunCmd string "string list" string

text \<open>
  \<open>watches\<close> are the paths the watcher accepted, in the order of the \<^verbatim>\<open>watcher.Add\<close>
  calls; \<open>trace\<close> is everything the program did, oldest first. \<open>RunCmd name args dir\<close>
  is one \<^verbatim>\<open>exec.Command(name, args...)\<close> run with \<^verbatim>\<open>cmd.Dir = dir\<close>.
\<close>

record sys =
  watches :: "string list"
  trace :: "action list"

definition emit :: "action \<Rightarrow> sys \<Rightarrow> sys" where
  "emit a s = s\<lparr>trace := trace s @ [a]\<rparr>"

definition debugln :: "config \<Rightarrow> arg list \<Rightarrow> sys \<Rightarrow> sys" where
  "debugln cfg args s = (if flagDebug cfg then emit (DebugOut args) s else s)"

subsection \<open>The world as the program sees it\<close>

text \<open>
  What became of a started process: it could not be started, or it ran and exited with a
  status. \<open>exec_Run\<close> is the contract of \<^verbatim>\<open>(*exec.Cmd).Run\<close> of os/exec when the
  output streams are files: the error is nil exactly when the command ran and exited with
  status 0; a command that starts and exits with another status gives an
  \<^verbatim>\<open>*exec.ExitError\<close>.
\<close>

datatype proc_outcome = StartFailed string | Exited int

fun exec_Run :: "proc_outcome \<Rightarrow> error option" where
  "exec_Run (StartFailed m) = Some (LaunchError m)"
| "exec_Run (Exited c) = (if c = 0 then None else Some (ExitError c))"

text \<open>
  The answers of the environment at one moment: \<open>os_Stat p\<close> is the error or whether
  \<open>p\<close> is a directory, \<open>watcher_Add p\<close> the error of adding a watch, \<open>proc dir args\<close>
  what happens to \<^verbatim>\<open>go args...\<close> started in \<open>dir\<close>.
\<close>

record world =
  os_Stat :: "string \<Rightarrow> error + bool"
  watcher_Add :: "string \<Rightarrow> error option"
  proc :: "string \<Rightarrow> string list \<Rightarrow> proc_outcome"

subsection \<open>path/filepath on Unix\<close>

definition sep :: char where
  "sep = CHR ''/''"

text \<open>\<^verbatim>\<open>filepath.Base\<close>: the last element, trailing separators removed first.\<close>

definition filepath_Base :: "string \<Rightarrow> string" where
  "filepath_Base path =
     (if path = [] then ''.''
      else let p = rev (takeWhile (\<lambda>c. c \<noteq> sep) (dropWhile (\<lambda>c. c = sep) (rev path)))
           in if p = [] then [sep] else p)"

text \<open>
  \<^verbatim>\<open>filepath.Ext\<close>: scan from the end up to the last separator; the suffix from the
  last dot of the last element. \<open>ext_scan\<close> walks the reversed path and keeps the
  suffix already passed.
\<close>

fun ext_scan :: "string \<Rightarrow> string \<Rightarrow> string" where
  "ext_scan [] suffix = []"
| "ext_scan (c # front) suffix =
     (if c = sep then []
      else if c = CHR ''.'' then c # suffix
      else ext_scan front (c # suffix))"

definition filepath_Ext :: "string \<Rightarrow> string" where
  "filepath_Ext path = ext_scan (rev path) []"

text \<open>
  \<^verbatim>\<open>filepath.Clean\<close>. \<open>unwind\<close> is the handling of a \<^verbatim>\<open>..\<close> element that can
  remove the element before it: on the reversed output buffer, drop the last character
  and go on while more than \<open>dotdot\<close> characters remain and the dropped one was no
  separator.
\<close>

fun unwind :: "nat \<Rightarrow> string \<Rightarrow> string" where
  "unwind dotdot [] = []"
| "unwind dotdot (c # r) = (if length r > dotdot \<and> c \<noteq> sep then unwind dotdot r else r)"

function clean_loop :: "bool \<Rightarrow> string \<Rightarrow> nat \<Rightarrow> string \<Rightarrow> string" where
  "clean_loop rooted out dotdot [] = out"
| "clean_loop rooted out dotdot (c # cs) =
     (if c = sep then clean_loop rooted out dotdot cs
      else if c = CHR ''.'' \<and> (cs = [] \<or> hd cs = sep) then clean_loop rooted out dotdot cs
      else if c = CHR ''.'' \<and> hd cs = CHR ''.'' \<and> (tl cs = [] \<or> hd (tl cs) = sep) then
        (if length out > dotdot then
           clean_loop rooted (rev (unwind dotdot (rev out))) dotdot (tl cs)
         else if \<not> rooted then
           (let out' = (if length out > 0 then out @ [sep] else out) @ ''..''
            in clean_loop rooted out' (length out') (tl cs))
         else clean_loop rooted out dotdot (tl cs))
      else
        (let out' = (if rooted \<and> length out \<noteq> 1 \<or> \<not> rooted \<and> length out \<noteq> 0
                     then out @ [sep] else out)
         in clean_loop rooted (out' @ takeWhile (\<lambda>x. x \<noteq> sep) (c # cs)) dotdot
              (dropWhile (\<lambda>x. x \<noteq> sep) (c # cs))))"
  by pat_completeness auto
termination
proof (relation "measure (\<lambda>(rooted, out, dotdot, rest). length rest)")
  show "wf (measure (\<lambda>(rooted, out, dotdot, rest). length rest))"
    by simp
next
  fix rooted :: bool and out :: string and dotdot :: nat and c :: char and cs :: string
    and x :: string
  assume "c \<noteq> sep"
  then have "length (dropWhile (\<lambda>x. x \<noteq> sep) (c # cs)) \<le> length cs"
    by (simp add: length_dropWhile_le)
  then show "((rooted, x @ takeWhile (\<lambda>x. x \<noteq> sep) (c # cs), dotdot,
                dropWhile (\<lambda>x. x \<noteq> sep) (c # cs)),
               rooted, out, dotdot, c # cs)
             \<in> measure (\<lambda>(rooted, out, dotdot, rest). length rest)"
    by simp
qed (auto simp: less_Suc_eq_le)

definition filepath_Clean :: "string \<Rightarrow> string" where
  "filepath_Clean path =
     (if path = [] then ''.''
      else let rooted = (hd path = sep);
               out = (if rooted then clean_loop True [sep] 1 (tl path)
                      else clean_loop False [] 0 path)
           in if out = [] then ''.'' else out)"

text \<open>\<^verbatim>\<open>filepath.Dir\<close>: everything up to the last separator, cleaned.\<close>

definition filepath_Dir :: "string \<Rightarrow> string" where
  "filepath_Dir path = filepath_Clean (rev (dropWhile (\<lambda>c. c \<noteq> sep) (rev path)))"

text \<open>\<^verbatim>\<open>filepath.Join\<close> of two elements, as \<^verbatim>\<open>filepath.Walk\<close> calls it.\<close>

definition filepath_Join :: "string \<Rightarrow> string \<Rightarrow> string" where
  "filepath_Join dir name =
     (if dir \<noteq> [] then filepath_Clean (dir @ [sep] @ name)
      else if name \<noteq> [] then filepath_Clean name
      else [])"

text \<open>\<^verbatim>\<open>strings.Join\<close>.\<close>

fun strings_Join :: "string list \<Rightarrow> string \<Rightarrow> string" where
  "strings_Join [] s = []"
| "strings_Join [x] s = x"
| "strings_Join (x # y # ys) s = x @ s @ strings_Join (y # ys) s"

subsection \<open>fsnotify events\<close>

text \<open>
  \<^verbatim>\<open>fsnotify.Op\<close> is a \<^verbatim>\<open>uint32\<close> bit mask; the constants are \<^verbatim>\<open>1 << iota\<close>.
\<close>

type_synonym Op = "32 word"

definition Create :: Op where "Create = 1"
definition Write :: Op where "Write = 2"
definition Remove :: Op where "Remove = 4"
definition Rename :: Op where "Rename = 8"
definition Chmod :: Op where "Chmod = 16"

text \<open>
  \<^verbatim>\<open>Op.String()\<close> of fsnotify: the names of the bits that are set, each written with a
  leading pipe, and the first pipe stripped; empty when no known bit is set.
\<close>

definition Op_String :: "Op \<Rightarrow> string" where
  "Op_String op =
     (let buffer =
            (if op AND Create = Create then ''|CREATE'' else [])
          @ (if op AND Remove = Remove then ''|REMOVE'' else [])
          @ (if op AND Write = Write then ''|WRITE'' else [])
          @ (if op AND Rename = Rename then ''|RENAME'' else [])
          @ (if op AND Chmod = Chmod then ''|CHMOD'' else [])
      in if length buffer = 0 then [] else tl buffer)"

record event =
  Name :: string
  Op :: Op

subsection \<open>time\<close>

text \<open>
  A \<^verbatim>\<open>time.Time\<close> is its reading in nanoseconds; a \<^verbatim>\<open>time.Duration\<close> is an
  \<^verbatim>\<open>int64\<close> of nanoseconds. \<^verbatim>\<open>Time.Sub\<close> saturates at the largest and smallest
  duration, and Go's integer division truncates towards zero.
\<close>

definition maxDuration :: int where "maxDuration = 2 ^ 63 - 1"
definition minDuration :: int where "minDuration = - (2 ^ 63)"
definition Millisecond :: int where "Millisecond = 1000000"

definition time_Sub :: "int \<Rightarrow> int \<Rightarrow> int" where
  "time_Sub t u =
     (let d = t - u
      in if d > maxDuration then maxDuration
         else if d < minDuration then minDuration
         else d)"

definition go_div :: "int \<Rightarrow> int \<Rightarrow> int" where
  "go_div a b = sgn a * sgn b * (\<bar>a\<bar> div \<bar>b\<bar>)"

subsection \<open>Running the tests\<close>

definition runGoTest :: "config \<Rightarrow> world \<Rightarrow> string \<Rightarrow> sys \<Rightarrow> error option \<times> sys" where
  "runGoTest cfg w dir s =
     (let args = [''test''];
          otherArgs = flagArgs cfg;
          args = args @ otherArgs;
          s = debugln cfg [S ''running: go'', S (strings_Join args '' '')] s;
          s = emit (RunCmd ''go'' args dir) s
      in (exec_Run (proc w dir args), s))"

definition runTestsForDir :: "config \<Rightarrow> world \<Rightarrow> string \<Rightarrow> sys \<Rightarrow> error option \<times> sys" where
  "runTestsForDir cfg w dir s = runGoTest cfg w dir s"

definition runTestsForFile :: "config \<Rightarrow> world \<Rightarrow> string \<Rightarrow> sys \<Rightarrow> error option \<times> sys" where
  "runTestsForFile cfg w file s =
     (let filename = filepath_Base file;
          dir = filepath_Dir file;
          ext = filepath_Ext filename
      in if ext \<noteq> ''.go'' then (None, s)
         else runGoTest cfg w dir s)"

subsection \<open>The event dispatcher\<close>

text \<open>
  \<^verbatim>\<open>handleEvent\<close>: a \<^verbatim>\<open>switch\<close> without fallthrough, so the first case whose
  condition holds is the only one that runs.
\<close>

definition handleEvent :: "config \<Rightarrow> world \<Rightarrow> event \<Rightarrow> sys \<Rightarrow> error option \<times> sys" where
  "handleEvent cfg w ev s =
     (if Op ev AND Create = Create then
        (if filepath_Base (Name ev) = ''vendor'' then (None, s)
         else
           (let s = emit (Stat (Name ev)) s
            in case os_Stat w (Name ev) of
                 Inl err \<Rightarrow> (errors_Wrap (Some err) ''failed to stat newly created file'', s)
               | Inr isDir \<Rightarrow>
                   if \<not> isDir then runTestsForFile cfg w (Name ev) s
                   else
                     (let s = debugln cfg [S ''Adding watch:'', S (Name ev)] s;
                          s = emit (AddWatch (Name ev)) s
                      in case watcher_Add w (Name ev) of
                           Some err \<Rightarrow>
                             (errors_Wrap (Some err) (''error removing watch on '' @ Name ev), s)
                         | None \<Rightarrow> (None, s\<lparr>watches := watches s @ [Name ev]\<rparr>))))
      else if Op ev AND Write = Write then
        (case runTestsForFile cfg w (Name ev) s of
           (Some err, s) \<Rightarrow> (Some err, s)
         | (None, s) \<Rightarrow> (None, s))
      else (None, s))"

subsection \<open>The event loop\<close>

text \<open>
  What one \<^verbatim>\<open>select\<close> receives: a value from \<^verbatim>\<open>watcher.Errors\<close> (nil when the
  channel is closed), or an event from \<^verbatim>\<open>watcher.Events\<close> together with the
  reading of \<^verbatim>\<open>time.Now()\<close> and the world at that moment.
\<close>

datatype input =
    FromErrors "error option"
  | FromEvents event int world

text \<open>The debounce key and the test of lines 103 to 110.\<close>

definition throttle_key :: "event \<Rightarrow> string" where
  "throttle_key ev = Name ev @ '':'' @ Op_String (Op ev)"

definition skipping :: "(string \<rightharpoonup> int) \<Rightarrow> string \<Rightarrow> int \<Rightarrow> bool" where
  "skipping throttle key now =
     (case throttle key of
        None \<Rightarrow> False
      | Some t \<Rightarrow> (let elapsed = go_div (time_Sub now t) Millisecond in elapsed < 800))"

text \<open>
  One iteration of the \<^verbatim>\<open>for\<close> loop: \<open>Inl\<close> is a \<^verbatim>\<open>return\<close> with its error,
  \<open>Inr\<close> the next iteration (also after \<^verbatim>\<open>continue\<close>).
\<close>

definition iteration ::
  "config \<Rightarrow> (string \<rightharpoonup> int) \<times> sys \<Rightarrow> input \<Rightarrow>
     (error option \<times> (string \<rightharpoonup> int) \<times> sys) + ((string \<rightharpoonup> int) \<times> sys)" where
  "iteration cfg st inp =
     (case st of (throttle, s) \<Rightarrow>
        (case inp of
           FromErrors err \<Rightarrow>
             (case err of
                None \<Rightarrow> Inl (None, throttle, s)
              | Some e \<Rightarrow> Inl (Some e, throttle, debugln cfg [S ''watching error:'', E e] s))
         | FromEvents ev now w \<Rightarrow>
             (let s = debugln cfg [S ''watcher event:'', S (Name ev), S (Op_String (Op ev))] s;
                  key = throttle_key ev
              in if skipping throttle key now then
                   Inr (throttle, debugln cfg [S ''skipping event, less than 800ms''] s)
                 else
                   (let throttle = throttle(key \<mapsto> now)
                    in case handleEvent cfg w ev s of
                         (Some err, s) \<Rightarrow> Inl (Some err, throttle, s)
                       | (None, s) \<Rightarrow> Inr (throttle, s)))))"

text \<open>
  The loop over the inputs that arrive. The Go loop never ends by itself: when the
  inputs given are used up it is blocked in \<^verbatim>\<open>select\<close>, which is \<open>Blocked\<close>.
\<close>

datatype outcome = Returned "error option" | Blocked

fun events_loop ::
  "config \<Rightarrow> (string \<rightharpoonup> int) \<times> sys \<Rightarrow> input list \<Rightarrow> outcome \<times> (string \<rightharpoonup> int) \<times> sys" where
  "events_loop cfg st [] = (Blocked, st)"
| "events_loop cfg st (inp # rest) =
     (case iteration cfg st inp of
        Inl (err, st') \<Rightarrow> (Returned err, st')
      | Inr st' \<Rightarrow> events_loop cfg st' rest)"

definition handleEvents ::
  "config \<Rightarrow> sys \<Rightarrow> input list \<Rightarrow> outcome \<times> (string \<rightharpoonup> int) \<times> sys" where
  "handleEvents cfg watcher inputs = events_loop cfg (Map.empty, watcher) inputs"

subsection \<open>The manual trigger\<close>

text \<open>
  \<^verbatim>\<open>handleEnter\<close>: one iteration for each line \<^verbatim>\<open>scanner.Scan()\<close> delivers; the
  text of the line is never read. Each line comes with the world at that moment.
\<close>

fun handleEnter :: "config \<Rightarrow> string \<Rightarrow> (string \<times> world) list \<Rightarrow> sys \<Rightarrow> sys" where
  "handleEnter cfg wd [] s = s"
| "handleEnter cfg wd ((line, w) # rest) s =
     (case runTestsForDir cfg w wd s of
        (Some err, s) \<Rightarrow> handleEnter cfg wd rest (emit (ErrOut [S ''error running go test'', E err]) s)
      | (None, s) \<Rightarrow> handleEnter cfg wd rest s)"

subsection \<open>The startup walk\<close>

text \<open>
  The directory tree under the working directory, as \<^verbatim>\<open>filepath.Walk\<close> meets it:
  a node is something other than a directory, a directory with its entries in the order
  \<^verbatim>\<open>readDirNames\<close> returns them, an entry whose \<^verbatim>\<open>lstat\<close> fails, or a directory
  that cannot be listed.
\<close>

datatype fsnode =
    File
  | Dir "(string \<times> fsnode) list"
  | NoLstat error
  | NoReadDir error

fun IsDir :: "fsnode \<Rightarrow> bool" where
  "IsDir (Dir entries) = True"
| "IsDir (NoReadDir e) = True"
| "IsDir File = False"
| "IsDir (NoLstat e) = False"

text \<open>The function literal that \<^verbatim>\<open>initWatches\<close> passes to \<^verbatim>\<open>filepath.Walk\<close>.\<close>

definition walkFn ::
  "config \<Rightarrow> world \<Rightarrow> string \<Rightarrow> bool \<Rightarrow> error option \<Rightarrow> sys \<Rightarrow> error option \<times> sys" where
  "walkFn cfg w path isDir err s =
     (case err of
        Some e \<Rightarrow> (errors_Wrap (Some e) (''error occurred while walking: '' @ path), s)
      | None \<Rightarrow>
          if \<not> isDir then (None, s)
          else if filepath_Base path = ''vendor'' then (None, s)
          else
            (let s = debugln cfg [S ''Adding watch:'', S path] s;
                 s = emit (AddWatch path) s
             in case watcher_Add w path of
                  Some e \<Rightarrow> (errors_Wrap (Some e) ''failed to add watch to %s'', s)
                | None \<Rightarrow> (None, s\<lparr>watches := watches s @ [path]\<rparr>)))"

text \<open>
  \<^verbatim>\<open>walk\<close> of path/filepath: the callback first; a directory is entered unless the
  listing failed or the callback returned an error (\<^verbatim>\<open>SkipDir\<close> included). In the
  loop over the names, an entry whose \<^verbatim>\<open>lstat\<close> fails goes to the callback only,
  and \<^verbatim>\<open>SkipDir\<close> from a directory only skips that directory. \<open>walk\<close> is called on
  entries whose \<^verbatim>\<open>lstat\<close> succeeded, so its \<open>NoLstat\<close> equation is never reached.
\<close>

fun walk :: "config \<Rightarrow> world \<Rightarrow> string \<Rightarrow> fsnode \<Rightarrow> sys \<Rightarrow> error option \<times> sys"
  and walk_names ::
    "config \<Rightarrow> world \<Rightarrow> string \<Rightarrow> (string \<times> fsnode) list \<Rightarrow> sys \<Rightarrow> error option \<times> sys" where
  "walk cfg w path File s = walkFn cfg w path False None s"
| "walk cfg w path (NoLstat e) s = walkFn cfg w path False (Some e) s"
| "walk cfg w path (NoReadDir e) s = walkFn cfg w path True (Some e) s"
| "walk cfg w path (Dir entries) s =
     (case walkFn cfg w path True None s of
        (Some err1, s) \<Rightarrow> (Some err1, s)
      | (None, s) \<Rightarrow> walk_names cfg w path entries s)"
| "walk_names cfg w path [] s = (None, s)"
| "walk_names cfg w path ((name, NoLstat e) # rest) s =
     (let filename = filepath_Join path name
      in case walkFn cfg w filename False (Some e) s of
           (Some err, s) \<Rightarrow>
             if err \<noteq> SkipDir then (Some err, s) else walk_names cfg w path rest s
         | (None, s) \<Rightarrow> walk_names cfg w path rest s)"
| "walk_names cfg w path ((name, node) # rest) s =
     (let filename = filepath_Join path name
      in case walk cfg w filename node s of
           (Some err, s) \<Rightarrow>
             if \<not> IsDir node \<or> err \<noteq> SkipDir then (Some err, s)
             else walk_names cfg w path rest s
         | (None, s) \<Rightarrow> walk_names cfg w path rest s)"

text \<open>\<^verbatim>\<open>filepath.Walk\<close>: \<^verbatim>\<open>lstat\<close> of the root, then \<open>walk\<close>.\<close>

definition filepath_Walk ::
  "config \<Rightarrow> world \<Rightarrow> string \<Rightarrow> fsnode \<Rightarrow> sys \<Rightarrow> error option \<times> sys" where
  "filepath_Walk cfg w root node s =
     (case (case node of
              NoLstat e \<Rightarrow> walkFn cfg w root False (Some e) s
            | _ \<Rightarrow> walk cfg w root node s) of
        (err, s) \<Rightarrow> if err = Some SkipDir then (None, s) else (err, s))"

text \<open>
  \<^verbatim>\<open>initWatches\<close>. \<open>newWatcher\<close> is the error of \<^verbatim>\<open>fsnotify.NewWatcher()\<close>. With
  an error the Go function returns a nil watcher; the \<open>sys\<close> returned then only keeps
  the trace of what was done before.
\<close>

definition initWatches ::
  "config \<Rightarrow> world \<Rightarrow> error option \<Rightarrow> string \<Rightarrow> fsnode \<Rightarrow> error option \<times> sys" where
  "initWatches cfg w newWatcher workingDir tree =
     (let watcher = \<lparr>watches = [], trace = []\<rparr>
      in case newWatcher of
           Some err \<Rightarrow> (errors_Wrap (Some err) ''failed to create watcher'', watcher)
         | None \<Rightarrow> filepath_Walk cfg w workingDir tree watcher)"

text \<open>
  The earlier revision of the file has \<^verbatim>\<open>initWatches()\<close> without an argument: it
  asks \<^verbatim>\<open>os.Getwd()\<close> itself, here \<open>getwd\<close>, and then walks with the same
  callback. Its \<^verbatim>\<open>handleEvents\<close> and \<^verbatim>\<open>handleEvent\<close> are the ones above, and its
  \<^verbatim>\<open>runTestsForFile\<close> holds the body of \<^verbatim>\<open>runGoTest\<close> in place of the call.
\<close>

definition initWatches_getwd ::
  "config \<Rightarrow> world \<Rightarrow> error option \<Rightarrow> error + string \<Rightarrow> fsnode \<Rightarrow> error option \<times> sys" where
  "initWatches_getwd cfg w newWatcher getwd tree =
     (let watcher = \<lparr>watches = [], trace = []\<rparr>
      in case newWatcher of
           Some err \<Rightarrow> (errors_Wrap (Some err) ''failed to create watcher'', watcher)
         | None \<Rightarrow>
             (case getwd of
                Inl err \<Rightarrow> (errors_Wrap (Some err) ''failed to get working directory'', watcher)
              | Inr wd \<Rightarrow> filepath_Walk cfg w wd tree watcher))"

subsection \<open>Observations on a run\<close>

text \<open>
  What a run shows apart from its debug lines: \<open>quiet\<close> removes the output of
  \<^verbatim>\<open>debugln\<close> from the trace; \<open>invocations\<close> are the processes run, in order;
  \<open>reports\<close> are the lines written to standard error outside \<^verbatim>\<open>debugln\<close>.
\<close>

fun is_DebugOut :: "action \<Rightarrow> bool" where
  "is_DebugOut (DebugOut args) = True"
| "is_DebugOut a = False"

fun is_RunCmd :: "action \<Rightarrow> bool" where
  "is_RunCmd (RunCmd name args dir) = True"
| "is_RunCmd a = False"

fun is_ErrOut :: "action \<Rightarrow> bool" where
  "is_ErrOut (ErrOut args) = True"
| "is_ErrOut a = False"

definition quiet :: "sys \<Rightarrow> sys" where
  "quiet s = s\<lparr>trace := filter (\<lambda>a. \<not> is_DebugOut a) (trace s)\<rparr>"

definition invocations :: "sys \<Rightarrow> action list" where
  "invocations s = filter is_RunCmd (trace s)"

definition reports :: "sys \<Rightarrow> action list" where
  "reports s = filter is_ErrOut (trace s)"


text \<open>The throttle table after an iteration, whether the loop returned or goes on.\<close>

fun throttle_after ::
  "(error option \<times> (string \<rightharpoonup> int) \<times> sys) + ((string \<rightharpoonup> int) \<times> sys) \<Rightarrow> (string \<rightharpoonup> int)" where
  "throttle_after (Inl (err, throttle, s)) = throttle"
| "throttle_after (Inr (throttle, s)) = throttle"

text \<open>The directories of a tree with their paths, in the order the walk meets them.\<close>

fun dirs :: "string \<Rightarrow> fsnode \<Rightarrow> string list"
  and dirs_names :: "string \<Rightarrow> (string \<times> fsnode) list \<Rightarrow> string list" where
  "dirs path File = []"
| "dirs path (NoLstat e) = []"
| "dirs path (NoReadDir e) = [path]"
| "dirs path (Dir entries) = path # dirs_names path entries"
| "dirs_names path [] = []"
| "dirs_names path ((name, node) # rest) =
     dirs (filepath_Join path name) node @ dirs_names path rest"

text \<open>A tree in which every entry can be inspected and every directory listed.\<close>

fun readable :: "fsnode \<Rightarrow> bool"
  and readable_names :: "(string \<times> fsnode) list \<Rightarrow> bool" where
  "readable File = True"
| "readable (NoLstat e) = False"
| "readable (NoReadDir e) = False"
| "readable (Dir entries) = readable_names entries"
| "readable_names [] = True"
| "readable_names ((name, node) # rest) = (readable node \<and> readable_names rest)"

text \<open>An iteration's result with the debug lines removed.\<close>

fun quiet_result ::
  "(error option \<times> (string \<rightharpoonup> int) \<times> sys) + ((string \<rightharpoonup> int) \<times> sys) \<Rightarrow>
   (error option \<times> (string \<rightharpoonup> int) \<times> sys) + ((string \<rightharpoonup> int) \<times> sys)" where
  "quiet_result (Inl (err, throttle, s)) = Inl (err, throttle, quiet s)"
| "quiet_result (Inr (throttle, s)) = Inr (throttle, quiet s)"

text \<open>
  The operations of an event: which of the five known bits are set. Two events have the
  same path and operations when \<open>same_key\<close> holds.
\<close>

definition op_kind :: "Op \<Rightarrow> bool \<times> bool \<times> bool \<times> bool \<times> bool" where
  "op_kind op =
     (op AND Create = Create, op AND Remove = Remove, op AND Write = Write,
      op AND Rename = Rename, op AND Chmod = Chmod)"

definition same_key :: "event \<Rightarrow> event \<Rightarrow> bool" where
  "same_key e e' = (Name e = Name e' \<and> op_kind (Op e) = op_kind (Op e'))"

text \<open>
  The table as the specification describes it, over the events processed so far with
  their times, newest first: an event is accepted unless the last accepted event with the
  same path and operations came less than 800 milliseconds before it, and
  \<open>last_accepted\<close> is the time of the last accepted event with the path and
  operations of \<open>e\<close>.
\<close>

fun last_accepted :: "(event \<times> int) list \<Rightarrow> event \<Rightarrow> int option" where
  "last_accepted [] e = None"
| "last_accepted ((e', t) # older) e =
     (if same_key e' e \<and>
         (case last_accepted older e' of
            None \<Rightarrow> True
          | Some t0 \<Rightarrow> 800 * Millisecond \<le> t - t0)
      then Some t
      else last_accepted older e)"

text \<open>The events among the inputs, with their times, in the order of arrival.\<close>

fun events_of :: "input list \<Rightarrow> (event \<times> int) list" where
  "events_of [] = []"
| "events_of (FromErrors err # rest) = events_of rest"
| "events_of (FromEvents ev now w # rest) = (ev, now) # events_of rest"

text \<open>A table that holds, for every event key, what \<open>last_accepted\<close> says.\<close>

definition holds_last :: "(string \<rightharpoonup> int) \<Rightarrow> (event \<times> int) list \<Rightarrow> bool" where
  "holds_last throttle history = (\<forall>e. throttle (throttle_key e) = last_accepted history e)"

text \<open>
  The events whose handling calls \<^verbatim>\<open>runGoTest\<close>: a name with the extension
  \<^verbatim>\<open>.go\<close>, and either a Create of something that is no directory or, without the
  Create bit, a Write.
\<close>

definition reaches_runGoTest :: "world \<Rightarrow> event \<Rightarrow> bool" where
  "reaches_runGoTest w ev =
     (filepath_Ext (filepath_Base (Name ev)) = ''.go'' \<and>
      (if Op ev AND Create = Create
       then filepath_Base (Name ev) \<noteq> ''vendor'' \<and> os_Stat w (Name ev) = Inr False
       else Op ev AND Write = Write))"

subsection \<open>Sample inputs\<close>

text \<open>
  The scenario of the specification: \<^verbatim>\<open>/proj\<close> holds \<^verbatim>\<open>a/x.go\<close> and
  \<^verbatim>\<open>vendor/y.go\<close>; here \<^verbatim>\<open>vendor\<close> also holds a directory \<^verbatim>\<open>lib\<close>.
\<close>

definition proj_tree :: fsnode where
  "proj_tree =
     Dir [(''a'', Dir [(''x.go'', File)]),
          (''vendor'', Dir [(''lib'', Dir []), (''y.go'', File)])]"

definition demo_cfg :: config where
  "demo_cfg = \<lparr>flagDebug = False, flagArgs = [''-v'']\<rparr>"

text \<open>
  A world in which \<open>stat\<close> is the answer of every \<^verbatim>\<open>os.Stat\<close>, every watch is
  accepted and every process ends as \<open>out\<close>.
\<close>

definition demo_world :: "error + bool \<Rightarrow> proc_outcome \<Rightarrow> world" where
  "demo_world stat out =
     \<lparr>os_Stat = (\<lambda>p. stat), watcher_Add = (\<lambda>p. None), proc = (\<lambda>dir args. out)\<rparr>"

definition no_sys :: sys where
  "no_sys = \<lparr>watches = [], trace = []\<rparr>"

definition write_x :: event where
  "write_x = \<lparr>Name = ''/proj/a/x.go'', Op = Write\<rparr>"

definition create_vendor :: event where
  "create_vendor = \<lparr>Name = ''/proj/vendor'', Op = Create\<rparr>"

definition create_b :: event where
  "create_b = \<lparr>Name = ''/proj/b'', Op = Create\<rparr>"

definition create_write_x :: event where
  "create_write_x = \<lparr>Name = ''/proj/a/x.go'', Op = Create OR Write\<rparr>"

definition create_write_gen :: event where
  "create_write_gen = \<lparr>Name = ''/proj/gen.go'', Op = Create OR Write\<rparr>"

text \<open>A run of the loop on two events, and the table and the trace it leaves.\<close>

definition demo_inputs :: "input list" where
  "demo_inputs =
     [FromEvents write_x 0 (demo_world (Inr False) (Exited 0)),
      FromEvents create_b 5 (demo_world (Inr True) (Exited 0))]"



text \<open>
  Three writes of the same file, 500 and then 400 milliseconds apart, and the table and
  the trace they leave.
\<close>

definition burst_inputs :: "input list" where
  "burst_inputs =
     [FromEvents write_x 0 (demo_world (Inr False) (Exited 0)),
      FromEvents write_x 500000000 (demo_world (Inr False) (Exited 0)),
      FromEvents write_x 900000000 (demo_world (Inr False) (Exited 0))]"

definition burst_table :: "string \<rightharpoonup> int" where
  "burst_table = [throttle_key write_x \<mapsto> 900000000]"

definition burst_sys :: sys where
  "burst_sys =
     \<lparr>watches = [],
      trace = [RunCmd ''go'' [''test'', ''-v''] ''/proj/a'',
               RunCmd ''go'' [''test'', ''-v''] ''/proj/a'']\<rparr>"

section \<open>Properties\<close>

subsection \<open>Evaluation of the sample inputs\<close>

lemma demo_base_vendor: "filepath_Base ''/proj/vendor'' = ''vendor''"
  by (simp add: filepath_Base_def sep_def)

lemma demo_base_b: "filepath_Base ''/proj/b'' = ''b''"
  by (simp add: filepath_Base_def sep_def)

lemma demo_base_x: "filepath_Base ''/proj/a/x.go'' = ''x.go''"
  by (simp add: filepath_Base_def sep_def)

lemma demo_ext_x: "filepath_Ext ''x.go'' = ''.go''"
  by (simp add: filepath_Ext_def sep_def)

lemma demo_dir_x: "filepath_Dir ''/proj/a/x.go'' = ''/proj/a''"
  by (simp add: filepath_Dir_def filepath_Clean_def sep_def)

lemma op_bits:
  "Create AND Create = Create"
  "Write AND Create \<noteq> Create"
  "Write AND Write = Write"
  "(Create OR Write) AND Create = Create"
  "(Create OR Write) AND Write = Write"
  by (simp_all add: Create_def Write_def)

subsection \<open>The trace under \<open>emit\<close> and \<open>debugln\<close>\<close>

lemma invocations_emit:
  "invocations (emit a s) = invocations s @ (if is_RunCmd a then [a] else [])"
  by (simp add: invocations_def emit_def)

lemma invocations_debugln: "invocations (debugln cfg args s) = invocations s"
  by (simp add: debugln_def invocations_emit)

lemma reports_emit:
  "reports (emit a s) = reports s @ (if is_ErrOut a then [a] else [])"
  by (simp add: reports_def emit_def)

lemma reports_debugln: "reports (debugln cfg args s) = reports s"
  by (simp add: debugln_def reports_emit)

lemma watches_emit: "watches (emit a s) = watches s"
  by (simp add: emit_def)

lemma watches_debugln: "watches (debugln cfg args s) = watches s"
  by (simp add: debugln_def emit_def)

lemma runGoTest_obs:
  "fst (runGoTest cfg w dir s) = exec_Run (proc w dir (''test'' # flagArgs cfg))"
  "invocations (snd (runGoTest cfg w dir s)) =
     invocations s @ [RunCmd ''go'' (''test'' # flagArgs cfg) dir]"
  "reports (snd (runGoTest cfg w dir s)) = reports s"
  "watches (snd (runGoTest cfg w dir s)) = watches s"
  by (simp_all add: runGoTest_def Let_def invocations_emit invocations_debugln reports_emit
      reports_debugln watches_emit watches_debugln)

subsection \<open>The debounce window\<close>

lemma skipping_empty: "skipping Map.empty key now = False"
  by (simp add: skipping_def)

lemma elapsed_window:
  "go_div (time_Sub now t) Millisecond < 800 \<longleftrightarrow> now - t < 800 * Millisecond"
  by (auto simp: go_div_def time_Sub_def Millisecond_def maxDuration_def minDuration_def
      Let_def sgn_if)

lemma skipping_iff:
  "skipping throttle key now \<longleftrightarrow> (\<exists>t. throttle key = Some t \<and> now - t < 800 * Millisecond)"
  by (simp add: skipping_def elapsed_window split: option.splits)




lemma invocations_watches: "invocations (s\<lparr>watches := ws\<rparr>) = invocations s"
  by (simp add: invocations_def)

lemma runGoTest_errD:
  "runGoTest cfg w dir s = (err, s1) \<Longrightarrow> err = exec_Run (proc w dir (''test'' # flagArgs cfg))"
  using runGoTest_obs(1) [of cfg w dir s] by simp

subsection \<open>The test command's exit status\<close>

text \<open>
  Claim C1, as stated, fails. A Write of \<^verbatim>\<open>/proj/a/x.go\<close> whose \<^verbatim>\<open>go test\<close>
  exits with status 1 makes \<^verbatim>\<open>handleEvents\<close> return the exit error, while the
  same event with exit status 0 leaves the loop waiting for the next event.
\<close>

theorem C1_nonzero_exit_ends_loop:
  "fst (handleEvents demo_cfg no_sys
          [FromEvents write_x 0 (demo_world (Inr False) (Exited 1))])
     = Returned (Some (ExitError 1))
   \<and> fst (handleEvents demo_cfg no_sys
          [FromEvents write_x 0 (demo_world (Inr False) (Exited 0))])
     = Blocked"
  by (simp add: handleEvents_def iteration_def handleEvent_def runTestsForFile_def
      runGoTest_def Let_def skipping_empty write_x_def op_bits demo_base_x demo_ext_x
      demo_world_def)

text \<open>
  Claim C1, amended. For every accepted event whose handling reaches \<^verbatim>\<open>runGoTest\<close>,
  the program does not look at the exit status itself: \<^verbatim>\<open>handleEvent\<close> returns
  the error of \<^verbatim>\<open>cmd.Run\<close> as it is, and the event loop goes on with the next
  input exactly when that error is nil, which is when the command was started and exited
  with status 0. Any other error of \<^verbatim>\<open>cmd.Run\<close>, from a process that could not
  be started as well as from one that exited with a non-zero status, is returned by the
  loop, which ends.
\<close>

theorem C1_run_error_decides_loop:
  assumes "reaches_runGoTest w ev"
    and "\<not> skipping throttle (throttle_key ev) now"
  shows "fst (handleEvent cfg w ev s) =
           exec_Run (proc w (filepath_Dir (Name ev)) (''test'' # flagArgs cfg))
       \<and> fst (events_loop cfg (throttle, s) (FromEvents ev now w # rest)) =
           (case exec_Run (proc w (filepath_Dir (Name ev)) (''test'' # flagArgs cfg)) of
              Some err \<Rightarrow> Returned (Some err)
            | None \<Rightarrow>
                fst (events_loop cfg
                       (throttle(throttle_key ev \<mapsto> now),
                        snd (handleEvent cfg w ev
                               (debugln cfg
                                  [S ''watcher event:'', S (Name ev), S (Op_String (Op ev))] s)))
                       rest))
       \<and> (exec_Run (proc w (filepath_Dir (Name ev)) (''test'' # flagArgs cfg)) = None
            \<longleftrightarrow> proc w (filepath_Dir (Name ev)) (''test'' # flagArgs cfg) = Exited 0)"
proof -
  let ?run = "exec_Run (proc w (filepath_Dir (Name ev)) (''test'' # flagArgs cfg))"
  have handle: "fst (handleEvent cfg w ev s') = ?run" for s'
    using assms(1)
    by (auto simp: reaches_runGoTest_def handleEvent_def runTestsForFile_def Let_def
        runGoTest_obs(1) split: if_splits prod.splits option.splits dest: runGoTest_errD)
  have loop: "fst (events_loop cfg (throttle, s) (FromEvents ev now w # rest)) =
           (case ?run of
              Some err \<Rightarrow> Returned (Some err)
            | None \<Rightarrow>
                fst (events_loop cfg
                       (throttle(throttle_key ev \<mapsto> now),
                        snd (handleEvent cfg w ev
                               (debugln cfg
                                  [S ''watcher event:'', S (Name ev), S (Op_String (Op ev))] s)))
                       rest))"
  proof (cases "handleEvent cfg w ev
                  (debugln cfg [S ''watcher event:'', S (Name ev), S (Op_String (Op ev))] s)")
    case (Pair err s1)
    with handle [of "debugln cfg [S ''watcher event:'', S (Name ev), S (Op_String (Op ev))] s"]
    have run: "?run = err" by simp
    from Pair assms(2) show ?thesis
      unfolding run by (cases err) (simp_all add: iteration_def Let_def)
  qed
  have nil: "?run = None \<longleftrightarrow>
      proc w (filepath_Dir (Name ev)) (''test'' # flagArgs cfg) = Exited 0"
    by (cases "proc w (filepath_Dir (Name ev)) (''test'' # flagArgs cfg)") simp_all
  from handle [of s] loop nil show ?thesis by blast
qed

theorem C1_run_error_decides_loop_witness:
  "reaches_runGoTest (demo_world (Inr False) (StartFailed ''not found'')) write_x
   \<and> \<not> skipping Map.empty (throttle_key write_x) 0
   \<and> fst (events_loop demo_cfg (Map.empty, no_sys)
            [FromEvents write_x 0 (demo_world (Inr False) (StartFailed ''not found'')),
             FromEvents write_x 1 (demo_world (Inr False) (Exited 0))])
       = Returned (Some (LaunchError ''not found''))"
  using C1_run_error_decides_loop [of "demo_world (Inr False) (StartFailed ''not found'')"
      write_x Map.empty 0 demo_cfg no_sys
      "[FromEvents write_x 1 (demo_world (Inr False) (Exited 0))]"]
  by (simp add: reaches_runGoTest_def skipping_empty write_x_def op_bits demo_base_x
      demo_ext_x demo_world_def)

subsection \<open>Debouncing\<close>





lemma Op_String_inj: "Op_String a = Op_String b \<Longrightarrow> op_kind a = op_kind b"
  by (simp add: Op_String_def op_kind_def split: if_splits)

lemma Op_String_kind: "op_kind a = op_kind b \<Longrightarrow> Op_String a = Op_String b"
  by (simp add: Op_String_def op_kind_def)

lemma Op_String_no_colon: "CHR '':'' \<notin> set (Op_String op)"
  by (simp add: Op_String_def)

lemma takeWhile_up_to:
  "c \<notin> set xs \<Longrightarrow> takeWhile (\<lambda>x. x \<noteq> c) (xs @ c # ys) = xs"
  by (induction xs) auto

lemma split_at_last_colon:
  assumes "n1 @ '':'' @ s1 = n2 @ '':'' @ s2"
    and "CHR '':'' \<notin> set s1" and "CHR '':'' \<notin> set s2"
  shows "n1 = n2 \<and> s1 = s2"
proof -
  from assms(1) have "rev (n1 @ '':'' @ s1) = rev (n2 @ '':'' @ s2)"
    by simp
  then have eq: "rev s1 @ CHR '':'' # rev n1 = rev s2 @ CHR '':'' # rev n2"
    by simp
  have "takeWhile (\<lambda>c. c \<noteq> CHR '':'') (rev s1 @ CHR '':'' # rev n1) = rev s1"
    using assms(2) by (intro takeWhile_up_to) simp
  moreover have "takeWhile (\<lambda>c. c \<noteq> CHR '':'') (rev s2 @ CHR '':'' # rev n2) = rev s2"
    using assms(3) by (intro takeWhile_up_to) simp
  ultimately have "rev s1 = rev s2"
    using eq by simp
  then have "s1 = s2" by simp
  with assms(1) show ?thesis by simp
qed

lemma throttle_key_eq_iff:
  "throttle_key e = throttle_key e' \<longleftrightarrow> same_key e e'"
proof
  assume "throttle_key e = throttle_key e'"
  then have "Name e @ '':'' @ Op_String (Op e) = Name e' @ '':'' @ Op_String (Op e')"
    by (simp add: throttle_key_def)
  from split_at_last_colon [OF this Op_String_no_colon Op_String_no_colon]
  have name: "Name e = Name e'" and str: "Op_String (Op e) = Op_String (Op e')"
    by simp_all
  from name Op_String_inj [OF str] show "same_key e e'"
    by (simp add: same_key_def)
next
  assume "same_key e e'"
  then have "Name e = Name e'" and "op_kind (Op e) = op_kind (Op e')"
    by (simp_all add: same_key_def)
  then show "throttle_key e = throttle_key e'"
    using Op_String_kind [of "Op e" "Op e'"] by (simp add: throttle_key_def)
qed

lemma skipping_last_accepted:
  assumes "holds_last throttle history"
  shows "skipping throttle (throttle_key ev) now \<longleftrightarrow>
     \<not> (case last_accepted history ev of
          None \<Rightarrow> True
        | Some t0 \<Rightarrow> 800 * Millisecond \<le> now - t0)"
  using assms by (auto simp: holds_last_def skipping_iff split: option.splits)

lemma holds_last_step:
  assumes "holds_last throttle history"
  shows "holds_last (throttle_after (iteration cfg (throttle, s) (FromEvents ev now w)))
     ((ev, now) # history)"
proof -
  have after: "throttle_after (iteration cfg (throttle, s) (FromEvents ev now w)) =
     (if skipping throttle (throttle_key ev) now then throttle
      else throttle(throttle_key ev \<mapsto> now))"
    by (simp add: iteration_def Let_def split: prod.splits option.splits)
  show ?thesis
    unfolding holds_last_def
  proof
    fix e
    show "throttle_after (iteration cfg (throttle, s) (FromEvents ev now w)) (throttle_key e) =
        last_accepted ((ev, now) # history) e"
      using assms skipping_last_accepted [OF assms, of ev now]
        throttle_key_eq_iff [of ev e]
      by (auto simp: after holds_last_def)
  qed
qed

lemma holds_last_loop:
  assumes "holds_last throttle history"
    and "events_loop cfg (throttle, s) inputs = (Blocked, throttle', s')"
  shows "holds_last throttle' (rev (events_of inputs) @ history)"
  using assms
proof (induction inputs arbitrary: throttle s history)
  case Nil
  then show ?case by simp
next
  case (Cons inp inputs)
  show ?case
  proof (cases inp)
    case (FromErrors err)
    with Cons.prems(2) show ?thesis
      by (cases err) (simp_all add: iteration_def)
  next
    case (FromEvents ev now w)
    show ?thesis
    proof (cases "iteration cfg (throttle, s) inp")
      case (Inl r)
      with Cons.prems(2) show ?thesis by (simp split: prod.splits)
    next
      case (Inr st)
      obtain th1 s1 where st: "st = (th1, s1)" by (cases st)
      from holds_last_step [OF Cons.prems(1), of cfg s ev now w] Inr st FromEvents
      have "holds_last th1 ((ev, now) # history)" by simp
      moreover from Inr st Cons.prems(2)
      have "events_loop cfg (th1, s1) inputs = (Blocked, throttle', s')" by simp
      ultimately have "holds_last throttle' (rev (events_of inputs) @ (ev, now) # history)"
        by (rule Cons.IH)
      with FromEvents show ?thesis by simp
    qed
  qed
qed

lemma holds_last_empty: "holds_last Map.empty []"
  by (simp add: holds_last_def)


lemma demo_burst:
  "handleEvents demo_cfg no_sys burst_inputs = (Blocked, burst_table, burst_sys)"
  by (simp add: handleEvents_def burst_inputs_def burst_table_def burst_sys_def iteration_def
      handleEvent_def runTestsForFile_def runGoTest_def Let_def skipping_def go_div_def
      time_Sub_def Millisecond_def maxDuration_def minDuration_def write_x_def op_bits
      demo_base_x demo_ext_x demo_dir_x demo_world_def demo_cfg_def no_sys_def emit_def
      debugln_def)

text \<open>
  Claim C4. \<open>last_accepted\<close> says in the claim's words what the table has to hold: over
  the events processed so far, newest first, an event is accepted unless the last
  accepted event with the same path and operations came less than 800 milliseconds
  before it, and the entry of a key is the time of its last accepted event. After every
  run of the loop that is still going on, the table of the code is this for every event
  key, and it stays so through the next event, whether that event is dropped, accepted,
  or accepted with an error from the dispatcher. The step itself: a dropped event leaves
  the whole table as it was, an accepted one sets its own key to the arrival time and no
  other; an event is dropped exactly when the last acceptance for its key, not the last
  arrival, is less than 800 milliseconds back. Two events have the same key exactly when
  their paths are equal and the same operations are set.
\<close>

theorem C4_table_holds_last_acceptance:
  assumes "handleEvents cfg watcher pre = (Blocked, throttle, s)"
  shows "throttle (throttle_key e) = last_accepted (rev (events_of pre)) e
     \<and> throttle_after (iteration cfg (throttle, s) (FromEvents ev now w)) (throttle_key e) =
         last_accepted ((ev, now) # rev (events_of pre)) e
     \<and> throttle_after (iteration cfg (throttle, s) (FromEvents ev now w)) =
         (if skipping throttle (throttle_key ev) now then throttle
          else throttle(throttle_key ev \<mapsto> now))
     \<and> (skipping throttle (throttle_key ev) now \<longleftrightarrow>
          (\<exists>t0. last_accepted (rev (events_of pre)) ev = Some t0 \<and>
                now - t0 < 800 * Millisecond))
     \<and> (throttle_key e = throttle_key e' \<longleftrightarrow>
          Name e = Name e' \<and> op_kind (Op e) = op_kind (Op e'))"
proof -
  from assms have "events_loop cfg (Map.empty, watcher) pre = (Blocked, throttle, s)"
    by (simp add: handleEvents_def)
  from holds_last_loop [OF holds_last_empty this]
  have inv: "holds_last throttle (rev (events_of pre))"
    by simp
  then have table: "throttle (throttle_key e) = last_accepted (rev (events_of pre)) e"
    by (simp add: holds_last_def)
  have next_table:
    "throttle_after (iteration cfg (throttle, s) (FromEvents ev now w)) (throttle_key e) =
       last_accepted ((ev, now) # rev (events_of pre)) e"
    using holds_last_step [OF inv, of cfg s ev now w] by (simp add: holds_last_def)
  have step: "throttle_after (iteration cfg (throttle, s) (FromEvents ev now w)) =
     (if skipping throttle (throttle_key ev) now then throttle
      else throttle(throttle_key ev \<mapsto> now))"
    by (simp add: iteration_def Let_def split: prod.splits option.splits)
  have skip: "skipping throttle (throttle_key ev) now \<longleftrightarrow>
      (\<exists>t0. last_accepted (rev (events_of pre)) ev = Some t0 \<and> now - t0 < 800 * Millisecond)"
    using inv by (simp add: skipping_iff holds_last_def)
  have key: "throttle_key e = throttle_key e' \<longleftrightarrow>
      Name e = Name e' \<and> op_kind (Op e) = op_kind (Op e')"
    by (simp add: throttle_key_eq_iff same_key_def)
  from table next_table step skip key show ?thesis by blast
qed

theorem C4_table_holds_last_acceptance_witness:
  "handleEvents demo_cfg no_sys burst_inputs = (Blocked, burst_table, burst_sys)
   \<and> last_accepted (rev (events_of burst_inputs)) write_x = Some 900000000
   \<and> skipping burst_table (throttle_key write_x) 1600000000
   \<and> throttle_after (iteration demo_cfg (burst_table, burst_sys)
        (FromEvents write_x 1600000000 (demo_world (Inr False) (Exited 0)))) = burst_table
   \<and> last_accepted ((write_x, 1600000000) # rev (events_of burst_inputs)) write_x
       = Some 900000000"
proof -
  note inst = C4_table_holds_last_acceptance [OF demo_burst, of write_x write_x 1600000000
      "demo_world (Inr False) (Exited 0)" write_x]
  have entry: "burst_table (throttle_key write_x) = Some 900000000"
    by (simp add: burst_table_def)
  have skip: "skipping burst_table (throttle_key write_x) 1600000000"
    by (simp add: skipping_iff entry Millisecond_def)
  from inst have "burst_table (throttle_key write_x) =
      last_accepted (rev (events_of burst_inputs)) write_x"
    by (rule conjunct1)
  with entry have last: "last_accepted (rev (events_of burst_inputs)) write_x = Some 900000000"
    by simp
  from inst skip
  have same: "throttle_after (iteration demo_cfg (burst_table, burst_sys)
        (FromEvents write_x 1600000000 (demo_world (Inr False) (Exited 0)))) = burst_table"
    by simp
  from inst have "throttle_after (iteration demo_cfg (burst_table, burst_sys)
        (FromEvents write_x 1600000000 (demo_world (Inr False) (Exited 0))))
        (throttle_key write_x) =
      last_accepted ((write_x, 1600000000) # rev (events_of burst_inputs)) write_x"
    by blast
  with same entry
  have after: "last_accepted ((write_x, 1600000000) # rev (events_of burst_inputs)) write_x
      = Some 900000000"
    by simp
  from demo_burst last skip same after show ?thesis
    by blast
qed

subsection \<open>The dispatcher\<close>

text \<open>
  Claim C5. A Create event whose base name is \<^verbatim>\<open>vendor\<close> leaves everything as it
  was and returns no error: no stat, no watch, no test run, no output.
\<close>

theorem C5_create_vendor_ignored:
  assumes "Op ev AND Create = Create" and "filepath_Base (Name ev) = ''vendor''"
  shows "handleEvent cfg w ev s = (None, s)"
  using assms by (simp add: handleEvent_def)

theorem C5_create_vendor_ignored_witness:
  "Op create_vendor AND Create = Create
   \<and> filepath_Base (Name create_vendor) = ''vendor''
   \<and> handleEvent demo_cfg (demo_world (Inr True) (Exited 0)) create_vendor no_sys
       = (None, no_sys)"
  using C5_create_vendor_ignored
    [of create_vendor demo_cfg "demo_world (Inr True) (Exited 0)" no_sys]
  by (simp add: create_vendor_def demo_base_vendor op_bits)

text \<open>
  Claim C6. An accepted Create event on a path not named \<^verbatim>\<open>vendor\<close> whose
  \<^verbatim>\<open>os.Stat\<close> fails makes the event loop return the wrapped stat error at once;
  the inputs after it are never read.
\<close>

theorem C6_stat_error_is_fatal:
  assumes "Op ev AND Create = Create"
    and "filepath_Base (Name ev) \<noteq> ''vendor''"
    and "os_Stat w (Name ev) = Inl err"
    and "\<not> skipping throttle (throttle_key ev) now"
  shows "events_loop cfg (throttle, s) (FromEvents ev now w # rest) =
     (Returned (Some (Wrap ''failed to stat newly created file'' err)),
      throttle(throttle_key ev \<mapsto> now),
      emit (Stat (Name ev))
        (debugln cfg [S ''watcher event:'', S (Name ev), S (Op_String (Op ev))] s))"
  using assms by (simp add: iteration_def handleEvent_def Let_def)

theorem C6_stat_error_is_fatal_witness:
  "Op create_b AND Create = Create
   \<and> filepath_Base (Name create_b) \<noteq> ''vendor''
   \<and> fst (events_loop demo_cfg (Map.empty, no_sys)
            (FromEvents create_b 0 (demo_world (Inl (OsError ''no such file'')) (Exited 0))
             # demo_inputs))
       = Returned (Some (Wrap ''failed to stat newly created file'' (OsError ''no such file'')))"
  using C6_stat_error_is_fatal
    [of create_b "demo_world (Inl (OsError ''no such file'')) (Exited 0)"
      "OsError ''no such file''" Map.empty 0 demo_cfg no_sys demo_inputs]
  by (simp add: create_b_def demo_base_b op_bits skipping_empty demo_world_def)

text \<open>
  Claim C7. An event with the Write bit and without the Create bit: when the extension
  of the name is \<^verbatim>\<open>.go\<close>, exactly one process is run, \<^verbatim>\<open>go\<close> with the arguments
  \<^verbatim>\<open>test\<close> followed by the extra arguments as given, in the directory of the path,
  and the error returned is that of the run; with any other extension nothing happens
  and no error is returned.
\<close>

theorem C7_write_runs_tests:
  assumes "Op ev AND Create \<noteq> Create" and "Op ev AND Write = Write"
  shows "handleEvent cfg w ev s =
     (if filepath_Ext (filepath_Base (Name ev)) = ''.go'' then
        (exec_Run (proc w (filepath_Dir (Name ev)) (''test'' # flagArgs cfg)),
         emit (RunCmd ''go'' (''test'' # flagArgs cfg) (filepath_Dir (Name ev)))
           (debugln cfg [S ''running: go'', S (strings_Join (''test'' # flagArgs cfg) '' '')] s))
      else (None, s))
   \<and> invocations (snd (handleEvent cfg w ev s)) =
     (if filepath_Ext (filepath_Base (Name ev)) = ''.go''
      then invocations s @ [RunCmd ''go'' (''test'' # flagArgs cfg) (filepath_Dir (Name ev))]
      else invocations s)"
  using assms
  by (auto simp: handleEvent_def runTestsForFile_def runGoTest_def Let_def invocations_emit
      invocations_debugln split: option.splits)

theorem C7_write_runs_tests_witness:
  "Op write_x AND Create \<noteq> Create \<and> Op write_x AND Write = Write
   \<and> invocations (snd (handleEvent demo_cfg (demo_world (Inr False) (Exited 0)) write_x no_sys))
       = [RunCmd ''go'' [''test'', ''-v''] ''/proj/a'']"
  using C7_write_runs_tests [of write_x demo_cfg "demo_world (Inr False) (Exited 0)" no_sys]
  by (simp add: write_x_def op_bits demo_base_x demo_ext_x demo_dir_x demo_cfg_def
      no_sys_def invocations_def emit_def debugln_def)

lemma demo_base_gen: "filepath_Base ''/proj/gen.go'' = ''gen.go''"
  by (simp add: filepath_Base_def sep_def)

text \<open>
  Claim C9. An event with both the Create bit and the Write bit set is handled by the
  Create case and by nothing else: a base name \<^verbatim>\<open>vendor\<close> ends the handling;
  otherwise the path is inspected once, a stat error is returned wrapped, a directory
  gets one watch and no test run, and anything else goes once to
  \<^verbatim>\<open>runTestsForFile\<close>. The result is that of the same event with the Create bit
  alone, and the handling starts at most one process, a single \<^verbatim>\<open>go test\<close> for a
  \<^verbatim>\<open>.go\<close> file, where a Write case run in addition would start another one.
\<close>

theorem C9_create_wins_over_write:
  assumes "Op ev AND Create = Create" and "Op ev AND Write = Write"
  shows "handleEvent cfg w ev s =
     (if filepath_Base (Name ev) = ''vendor'' then (None, s)
      else
        (case os_Stat w (Name ev) of
           Inl err \<Rightarrow>
             (Some (Wrap ''failed to stat newly created file'' err), emit (Stat (Name ev)) s)
         | Inr isDir \<Rightarrow>
             if isDir then
               (case watcher_Add w (Name ev) of
                  Some err \<Rightarrow>
                    (Some (Wrap (''error removing watch on '' @ Name ev) err),
                     emit (AddWatch (Name ev))
                       (debugln cfg [S ''Adding watch:'', S (Name ev)]
                          (emit (Stat (Name ev)) s)))
                | None \<Rightarrow>
                    (None,
                     (emit (AddWatch (Name ev))
                        (debugln cfg [S ''Adding watch:'', S (Name ev)]
                           (emit (Stat (Name ev)) s)))\<lparr>watches := watches s @ [Name ev]\<rparr>))
             else runTestsForFile cfg w (Name ev) (emit (Stat (Name ev)) s)))
   \<and> handleEvent cfg w ev s = handleEvent cfg w (ev\<lparr>Op := Create\<rparr>) s
   \<and> invocations (snd (handleEvent cfg w ev s)) =
       invocations s @
       (if filepath_Base (Name ev) \<noteq> ''vendor'' \<and> os_Stat w (Name ev) = Inr False \<and>
           filepath_Ext (filepath_Base (Name ev)) = ''.go''
        then [RunCmd ''go'' (''test'' # flagArgs cfg) (filepath_Dir (Name ev))]
        else [])"
proof -
  have branch: "handleEvent cfg w ev s =
     (if filepath_Base (Name ev) = ''vendor'' then (None, s)
      else
        (case os_Stat w (Name ev) of
           Inl err \<Rightarrow>
             (Some (Wrap ''failed to stat newly created file'' err), emit (Stat (Name ev)) s)
         | Inr isDir \<Rightarrow>
             if isDir then
               (case watcher_Add w (Name ev) of
                  Some err \<Rightarrow>
                    (Some (Wrap (''error removing watch on '' @ Name ev) err),
                     emit (AddWatch (Name ev))
                       (debugln cfg [S ''Adding watch:'', S (Name ev)]
                          (emit (Stat (Name ev)) s)))
                | None \<Rightarrow>
                    (None,
                     (emit (AddWatch (Name ev))
                        (debugln cfg [S ''Adding watch:'', S (Name ev)]
                           (emit (Stat (Name ev)) s)))\<lparr>watches := watches s @ [Name ev]\<rparr>))
             else runTestsForFile cfg w (Name ev) (emit (Stat (Name ev)) s)))"
    using assms(1)
    by (simp add: handleEvent_def Let_def watches_emit watches_debugln
        split: sum.splits option.splits)
  have alone: "handleEvent cfg w ev s = handleEvent cfg w (ev\<lparr>Op := Create\<rparr>) s"
    using assms(1)
    by (auto simp: handleEvent_def op_bits Let_def split: sum.splits option.splits)
  have runs: "invocations (snd (handleEvent cfg w ev s)) =
       invocations s @
       (if filepath_Base (Name ev) \<noteq> ''vendor'' \<and> os_Stat w (Name ev) = Inr False \<and>
           filepath_Ext (filepath_Base (Name ev)) = ''.go''
        then [RunCmd ''go'' (''test'' # flagArgs cfg) (filepath_Dir (Name ev))]
        else [])"
    unfolding branch
    by (simp add: runTestsForFile_def Let_def runGoTest_obs invocations_emit
        invocations_debugln invocations_watches split: sum.splits option.splits)
  from branch alone runs show ?thesis by blast
qed

theorem C9_create_wins_over_write_witness:
  "Op create_write_x AND Create = Create \<and> Op create_write_x AND Write = Write
   \<and> handleEvent demo_cfg (demo_world (Inr False) (Exited 0)) create_write_x no_sys
       = (None,
          \<lparr>watches = [],
           trace = [Stat ''/proj/a/x.go'', RunCmd ''go'' [''test'', ''-v''] ''/proj/a'']\<rparr>)
   \<and> handleEvent demo_cfg (demo_world (Inr True) (Exited 0)) create_write_gen no_sys
       = (None,
          \<lparr>watches = [''/proj/gen.go''],
           trace = [Stat ''/proj/gen.go'', AddWatch ''/proj/gen.go'']\<rparr>)"
proof -
  have x: "Op create_write_x AND Create = Create" "Op create_write_x AND Write = Write"
    by (simp_all add: create_write_x_def op_bits)
  have gen: "Op create_write_gen AND Create = Create" "Op create_write_gen AND Write = Write"
    by (simp_all add: create_write_gen_def op_bits)
  from C9_create_wins_over_write [OF x, of demo_cfg "demo_world (Inr False) (Exited 0)" no_sys]
  have "handleEvent demo_cfg (demo_world (Inr False) (Exited 0)) create_write_x no_sys =
      runTestsForFile demo_cfg (demo_world (Inr False) (Exited 0)) ''/proj/a/x.go''
        (emit (Stat ''/proj/a/x.go'') no_sys)"
    by (simp add: create_write_x_def demo_base_x demo_world_def)
  then have first:
    "handleEvent demo_cfg (demo_world (Inr False) (Exited 0)) create_write_x no_sys
       = (None,
          \<lparr>watches = [],
           trace = [Stat ''/proj/a/x.go'', RunCmd ''go'' [''test'', ''-v''] ''/proj/a'']\<rparr>)"
    by (simp add: runTestsForFile_def runGoTest_def Let_def demo_base_x demo_ext_x demo_dir_x
        demo_world_def demo_cfg_def no_sys_def emit_def debugln_def)
  from C9_create_wins_over_write [OF gen, of demo_cfg "demo_world (Inr True) (Exited 0)" no_sys]
  have second:
    "handleEvent demo_cfg (demo_world (Inr True) (Exited 0)) create_write_gen no_sys
       = (None,
          \<lparr>watches = [''/proj/gen.go''],
           trace = [Stat ''/proj/gen.go'', AddWatch ''/proj/gen.go'']\<rparr>)"
    by (simp add: create_write_gen_def demo_base_gen demo_world_def demo_cfg_def no_sys_def
        emit_def debugln_def)
  from x first second show ?thesis by blast
qed

subsection \<open>The manual trigger\<close>

text \<open>
  Claim C8. \<^verbatim>\<open>handleEnter\<close> runs \<^verbatim>\<open>go test\<close> in the working directory once for
  every line, whatever the line holds and whatever the earlier runs returned; the error
  of a run is written to standard error and the loop goes on with the next line.
\<close>

theorem C8_one_run_per_line:
  "invocations (handleEnter cfg wd lines s) =
     invocations s @ map (\<lambda>l. RunCmd ''go'' (''test'' # flagArgs cfg) wd) lines
   \<and> reports (handleEnter cfg wd lines s) =
     reports s @ concat (map (\<lambda>(line, w).
        case exec_Run (proc w wd (''test'' # flagArgs cfg)) of
          None \<Rightarrow> []
        | Some err \<Rightarrow> [ErrOut [S ''error running go test'', E err]]) lines)"
proof (induction lines arbitrary: s)
  case Nil
  show ?case by simp
next
  case (Cons lw lines)
  obtain line w where lw: "lw = (line, w)" by (cases lw)
  obtain err s1 where r: "runGoTest cfg w wd s = (err, s1)" by (cases "runGoTest cfg w wd s")
  from r runGoTest_obs [of cfg w wd s]
  have obs: "err = exec_Run (proc w wd (''test'' # flagArgs cfg))"
    "invocations s1 = invocations s @ [RunCmd ''go'' (''test'' # flagArgs cfg) wd]"
    "reports s1 = reports s"
    by simp_all
  show ?case
  proof (cases err)
    case None
    with lw r obs Cons.IH [of s1] show ?thesis
      by (simp add: runTestsForDir_def)
  next
    case (Some e)
    with obs(1) have run: "exec_Run (proc w wd (''test'' # flagArgs cfg)) = Some e"
      by simp
    from Some r have "runGoTest cfg w wd s = (Some e, s1)"
      by simp
    with lw run obs(2,3) Cons.IH [of "emit (ErrOut [S ''error running go test'', E e]) s1"]
    show ?thesis
      by (simp add: runTestsForDir_def invocations_emit reports_emit)
  qed
qed

subsection \<open>The debug flag\<close>

lemma quiet_emit:
  "quiet (emit a s) = (if is_DebugOut a then quiet s else emit a (quiet s))"
  by (simp add: quiet_def emit_def)

lemma quiet_debugln: "quiet (debugln cfg args s) = quiet s"
  by (simp add: debugln_def quiet_emit)

lemma debugln_off: "debugln (cfg\<lparr>flagDebug := False\<rparr>) args s = s"
  by (simp add: debugln_def)

lemma quiet_watches: "quiet (s\<lparr>watches := ws\<rparr>) = (quiet s)\<lparr>watches := ws\<rparr>"
  by (simp add: quiet_def)

lemma watches_quiet: "watches (quiet s) = watches s"
  by (simp add: quiet_def)

lemma invocations_quiet: "invocations (quiet s) = invocations s"
proof -
  have "filter is_RunCmd (filter (\<lambda>a. \<not> is_DebugOut a) xs) = filter is_RunCmd xs" for xs
  proof (induction xs)
    case Nil
    show ?case by simp
  next
    case (Cons a xs)
    then show ?case by (cases a) simp_all
  qed
  then show ?thesis by (simp add: invocations_def quiet_def)
qed

lemma runGoTest_quiet:
  "apsnd quiet (runGoTest cfg w dir s) = runGoTest (cfg\<lparr>flagDebug := False\<rparr>) w dir (quiet s)"
  by (simp add: runGoTest_def Let_def quiet_emit quiet_debugln debugln_off)

lemma runTestsForFile_quiet:
  "apsnd quiet (runTestsForFile cfg w file s) =
     runTestsForFile (cfg\<lparr>flagDebug := False\<rparr>) w file (quiet s)"
  by (simp add: runTestsForFile_def Let_def runGoTest_quiet)

lemma apsnd_case_err:
  "apsnd f (case r of (Some err, s) \<Rightarrow> (Some err, s) | (None, s) \<Rightarrow> (None, s)) =
     (case apsnd f r of (Some err, s) \<Rightarrow> (Some err, s) | (None, s) \<Rightarrow> (None, s))"
  by (cases r) (simp split: option.splits)

lemma handleEvent_quiet:
  "apsnd quiet (handleEvent cfg w ev s) =
     handleEvent (cfg\<lparr>flagDebug := False\<rparr>) w ev (quiet s)"
  by (simp add: handleEvent_def Let_def quiet_emit quiet_debugln debugln_off quiet_watches
      watches_quiet watches_emit watches_debugln runTestsForFile_quiet apsnd_case_err
      split: sum.splits option.splits)


lemma handleEvent_quiet_pair:
  assumes "handleEvent cfg w ev s = (err, s1)"
  shows "handleEvent (cfg\<lparr>flagDebug := False\<rparr>) w ev (quiet s) = (err, quiet s1)"
  using handleEvent_quiet [of cfg w ev s] assms by simp

lemma iteration_quiet:
  "quiet_result (iteration cfg (throttle, s) inp) =
     iteration (cfg\<lparr>flagDebug := False\<rparr>) (throttle, quiet s) inp"
proof (cases inp)
  case (FromErrors err)
  then show ?thesis
    by (cases err) (simp_all add: iteration_def quiet_debugln debugln_off)
next
  case (FromEvents ev now w)
  let ?s = "debugln cfg [S ''watcher event:'', S (Name ev), S (Op_String (Op ev))] s"
  obtain err s1 where h: "handleEvent cfg w ev ?s = (err, s1)"
    by (cases "handleEvent cfg w ev ?s")
  from handleEvent_quiet_pair [OF h]
  have h': "handleEvent (cfg\<lparr>flagDebug := False\<rparr>) w ev (quiet s) = (err, quiet s1)"
    by (simp add: quiet_debugln)
  from FromEvents h h' show ?thesis
    by (cases err) (simp_all add: iteration_def Let_def quiet_debugln debugln_off)
qed

lemma events_loop_quiet:
  "apsnd (apsnd quiet) (events_loop cfg (throttle, s) inputs) =
     events_loop (cfg\<lparr>flagDebug := False\<rparr>) (throttle, quiet s) inputs"
proof (induction inputs arbitrary: throttle s)
  case Nil
  show ?case by simp
next
  case (Cons inp inputs)
  show ?case
  proof (cases "iteration cfg (throttle, s) inp")
    case (Inl r)
    obtain err th1 s1 where r: "r = (err, th1, s1)" by (cases r)
    with Inl iteration_quiet [of cfg throttle s inp]
    have "iteration (cfg\<lparr>flagDebug := False\<rparr>) (throttle, quiet s) inp = Inl (err, th1, quiet s1)"
      by simp
    with Inl r show ?thesis by simp
  next
    case (Inr st)
    obtain th1 s1 where st: "st = (th1, s1)" by (cases st)
    with Inr iteration_quiet [of cfg throttle s inp]
    have "iteration (cfg\<lparr>flagDebug := False\<rparr>) (throttle, quiet s) inp = Inr (th1, quiet s1)"
      by simp
    with Inr st Cons.IH [of th1 s1] show ?thesis by simp
  qed
qed

lemma handleEnter_quiet:
  "quiet (handleEnter cfg wd lines s) =
     handleEnter (cfg\<lparr>flagDebug := False\<rparr>) wd lines (quiet s)"
proof (induction lines arbitrary: s)
  case Nil
  show ?case by simp
next
  case (Cons lw lines)
  obtain line w where lw: "lw = (line, w)" by (cases lw)
  obtain err s1 where r: "runGoTest cfg w wd s = (err, s1)"
    by (cases "runGoTest cfg w wd s")
  with runGoTest_quiet [of cfg w wd s]
  have r': "runGoTest (cfg\<lparr>flagDebug := False\<rparr>) w wd (quiet s) = (err, quiet s1)"
    by simp
  show ?case
  proof (cases err)
    case None
    with lw r r' Cons.IH [of s1] show ?thesis
      by (simp add: runTestsForDir_def)
  next
    case (Some e)
    with lw r r' Cons.IH [of "emit (ErrOut [S ''error running go test'', E e]) s1"]
    show ?thesis
      by (simp add: runTestsForDir_def quiet_emit)
  qed
qed

lemma walkFn_quiet:
  "apsnd quiet (walkFn cfg w path isDir err s) =
     walkFn (cfg\<lparr>flagDebug := False\<rparr>) w path isDir err (quiet s)"
  by (simp add: walkFn_def Let_def quiet_emit quiet_debugln debugln_off quiet_watches
      watches_quiet watches_emit watches_debugln split: option.splits)

lemma walkFn_quiet_pair:
  assumes "walkFn cfg w path isDir err s = (r, s1)"
  shows "walkFn (cfg\<lparr>flagDebug := False\<rparr>) w path isDir err (quiet s) = (r, quiet s1)"
  using walkFn_quiet [of cfg w path isDir err s] assms by simp


lemma walk_names_quiet_entries:
  assumes "\<And>name node p s'. (name, node) \<in> set entries \<Longrightarrow>
      apsnd quiet (walk cfg w p node s') = walk (cfg\<lparr>flagDebug := False\<rparr>) w p node (quiet s')"
  shows "apsnd quiet (walk_names cfg w path entries s) =
     walk_names (cfg\<lparr>flagDebug := False\<rparr>) w path entries (quiet s)"
  using assms
proof (induction entries arbitrary: s)
  case Nil
  show ?case by simp
next
  case (Cons entry entries)
  obtain name node where entry: "entry = (name, node)" by (cases entry)
  have rest: "apsnd quiet (walk_names cfg w path entries s') =
      walk_names (cfg\<lparr>flagDebug := False\<rparr>) w path entries (quiet s')" for s'
  proof (rule Cons.IH)
    fix n x p s''
    assume "(n, x) \<in> set entries"
    then show "apsnd quiet (walk cfg w p x s'') =
        walk (cfg\<lparr>flagDebug := False\<rparr>) w p x (quiet s'')"
      using Cons.prems [of n x p s''] by simp
  qed
  show ?case
  proof (cases "\<exists>e. node = NoLstat e")
    case True
    then obtain e where node: "node = NoLstat e" by blast
    obtain r s1 where fn: "walkFn cfg w (filepath_Join path name) False (Some e) s = (r, s1)"
      by (cases "walkFn cfg w (filepath_Join path name) False (Some e) s")
    from walkFn_quiet_pair [OF fn] fn entry node rest [of s1] show ?thesis
      by (cases r) (simp_all add: Let_def)
  next
    case False
    obtain r s1 where wk: "walk cfg w (filepath_Join path name) node s = (r, s1)"
      by (cases "walk cfg w (filepath_Join path name) node s")
    have "apsnd quiet (walk cfg w (filepath_Join path name) node s) =
        walk (cfg\<lparr>flagDebug := False\<rparr>) w (filepath_Join path name) node (quiet s)"
      using Cons.prems [of name node] entry by simp
    with wk have wk':
      "walk (cfg\<lparr>flagDebug := False\<rparr>) w (filepath_Join path name) node (quiet s) = (r, quiet s1)"
      by simp
    from False wk wk' entry rest [of s1] show ?thesis
      by (cases node; cases r) (simp_all add: Let_def)
  qed
qed

lemma walk_quiet:
  "apsnd quiet (walk cfg w path node s) =
     walk (cfg\<lparr>flagDebug := False\<rparr>) w path node (quiet s)"
proof (induction node arbitrary: path s)
  case File
  show ?case by (simp add: walkFn_quiet)
next
  case (NoLstat e)
  show ?case by (simp add: walkFn_quiet)
next
  case (NoReadDir e)
  show ?case by (simp add: walkFn_quiet)
next
  case (Dir entries)
  have names: "apsnd quiet (walk_names cfg w path entries s') =
      walk_names (cfg\<lparr>flagDebug := False\<rparr>) w path entries (quiet s')" for s'
  proof (rule walk_names_quiet_entries)
    fix name node p s''
    assume "(name, node) \<in> set entries"
    then show "apsnd quiet (walk cfg w p node s'') =
        walk (cfg\<lparr>flagDebug := False\<rparr>) w p node (quiet s'')"
      using Dir.IH [of "(name, node)" node p s''] by simp
  qed
  obtain r s1 where fn: "walkFn cfg w path True None s = (r, s1)"
    by (cases "walkFn cfg w path True None s")
  from walkFn_quiet_pair [OF fn] fn names [of s1] show ?case
    by (cases r) simp_all
qed

lemma initWatches_quiet:
  "apsnd quiet (initWatches cfg w newWatcher workingDir tree) =
     initWatches (cfg\<lparr>flagDebug := False\<rparr>) w newWatcher workingDir tree"
proof -
  let ?s = "\<lparr>watches = [], trace = []\<rparr>"
  have start: "quiet ?s = ?s"
    by (simp add: quiet_def)
  have "apsnd quiet (filepath_Walk cfg w workingDir tree ?s) =
      filepath_Walk (cfg\<lparr>flagDebug := False\<rparr>) w workingDir tree ?s"
  proof (cases "\<exists>e. tree = NoLstat e")
    case True
    then obtain e where tree: "tree = NoLstat e" by blast
    obtain r s1 where fn: "walkFn cfg w workingDir False (Some e) ?s = (r, s1)"
      by (cases "walkFn cfg w workingDir False (Some e) ?s")
    from walkFn_quiet_pair [OF fn] fn tree start show ?thesis
      by (simp add: filepath_Walk_def)
  next
    case False
    obtain r s1 where wk: "walk cfg w workingDir tree ?s = (r, s1)"
      by (cases "walk cfg w workingDir tree ?s")
    with walk_quiet [of cfg w workingDir tree ?s] start
    have "walk (cfg\<lparr>flagDebug := False\<rparr>) w workingDir tree ?s = (r, quiet s1)"
      by simp
    with False wk show ?thesis
      by (cases tree) (simp_all add: filepath_Walk_def)
  qed
  with start show ?thesis
    by (cases newWatcher) (simp_all add: initWatches_def Let_def)
qed


lemma handleEvents_quiet:
  "apsnd (apsnd quiet) (handleEvents cfg watcher inputs) =
     handleEvents (cfg\<lparr>flagDebug := False\<rparr>) (quiet watcher) inputs"
  by (simp add: handleEvents_def events_loop_quiet)

lemma initWatches_quiet_snd:
  "quiet (snd (initWatches cfg w newWatcher workingDir tree)) =
     snd (initWatches (cfg\<lparr>flagDebug := False\<rparr>) w newWatcher workingDir tree)"
  using initWatches_quiet [of cfg w newWatcher workingDir tree, symmetric]
  by (simp add: snd_apsnd)

text \<open>
  Claim C10. Two runs that differ only in the debug flag are the same once the lines of
  \<^verbatim>\<open>debugln\<close> are taken out of the trace: the startup walk returns the same error
  and registers the same watches; the event loop, started on the watcher of the walk or
  on any watcher, ends or blocks in the same way with the same throttle table (so the
  same events were accepted and dropped), the same watches and the same processes run
  with the same arguments and directories; and the manual trigger does the same runs
  and writes the same reports.
\<close>

theorem C10_debug_flag_only_adds_output:
  "apsnd quiet (initWatches (cfg\<lparr>flagDebug := d\<rparr>) w newWatcher workingDir tree)
     = apsnd quiet (initWatches cfg w newWatcher workingDir tree)
   \<and> apsnd (apsnd quiet)
       (handleEvents (cfg\<lparr>flagDebug := d\<rparr>)
          (snd (initWatches (cfg\<lparr>flagDebug := d\<rparr>) w newWatcher workingDir tree)) inputs)
     = apsnd (apsnd quiet)
       (handleEvents cfg (snd (initWatches cfg w newWatcher workingDir tree)) inputs)
   \<and> apsnd (apsnd quiet) (handleEvents (cfg\<lparr>flagDebug := d\<rparr>) watcher inputs)
     = apsnd (apsnd quiet) (handleEvents cfg watcher inputs)
   \<and> quiet (handleEnter (cfg\<lparr>flagDebug := d\<rparr>) wd lines s)
     = quiet (handleEnter cfg wd lines s)"
proof -
  have off: "(cfg\<lparr>flagDebug := d\<rparr>)\<lparr>flagDebug := False\<rparr> = cfg\<lparr>flagDebug := False\<rparr>"
    by simp
  have walk: "apsnd quiet (initWatches (cfg\<lparr>flagDebug := d\<rparr>) w newWatcher workingDir tree)
      = apsnd quiet (initWatches cfg w newWatcher workingDir tree)"
    using initWatches_quiet [of "cfg\<lparr>flagDebug := d\<rparr>" w newWatcher workingDir tree]
      initWatches_quiet [of cfg w newWatcher workingDir tree] off
    by simp
  have both: "apsnd (apsnd quiet)
       (handleEvents (cfg\<lparr>flagDebug := d\<rparr>)
          (snd (initWatches (cfg\<lparr>flagDebug := d\<rparr>) w newWatcher workingDir tree)) inputs)
     = apsnd (apsnd quiet)
       (handleEvents cfg (snd (initWatches cfg w newWatcher workingDir tree)) inputs)"
    using initWatches_quiet_snd [of "cfg\<lparr>flagDebug := d\<rparr>" w newWatcher workingDir tree]
      initWatches_quiet_snd [of cfg w newWatcher workingDir tree] off
    by (simp add: handleEvents_quiet)
  have loop: "apsnd (apsnd quiet) (handleEvents (cfg\<lparr>flagDebug := d\<rparr>) watcher inputs)
     = apsnd (apsnd quiet) (handleEvents cfg watcher inputs)"
    using off by (simp add: handleEvents_quiet)
  have enter: "quiet (handleEnter (cfg\<lparr>flagDebug := d\<rparr>) wd lines s)
     = quiet (handleEnter cfg wd lines s)"
    using off by (simp add: handleEnter_quiet)
  from walk both loop enter show ?thesis by blast
qed

subsection \<open>What the startup walk registers\<close>

lemma readable_names_mem:
  "readable_names entries \<Longrightarrow> (name, node) \<in> set entries \<Longrightarrow> readable node"
  by (induction entries) auto

lemma walkFn_accepts:
  assumes "\<forall>p. watcher_Add w p = None"
  shows "fst (walkFn cfg w path isDir None s) = None"
    and "watches (snd (walkFn cfg w path isDir None s)) =
           watches s @ (if isDir \<and> filepath_Base path \<noteq> ''vendor'' then [path] else [])"
  using assms by (simp_all add: walkFn_def Let_def watches_emit watches_debugln)

lemma walk_names_watches_entries:
  assumes "\<And>name node p s'. (name, node) \<in> set entries \<Longrightarrow>
      fst (walk cfg w p node s') = None \<and>
      watches (snd (walk cfg w p node s')) =
        watches s' @ filter (\<lambda>q. filepath_Base q \<noteq> ''vendor'') (dirs p node)"
    and "readable_names entries"
  shows "fst (walk_names cfg w path entries s) = None \<and>
     watches (snd (walk_names cfg w path entries s)) =
       watches s @ filter (\<lambda>q. filepath_Base q \<noteq> ''vendor'') (dirs_names path entries)"
  using assms
proof (induction entries arbitrary: s)
  case Nil
  show ?case by simp
next
  case (Cons entry entries)
  obtain name node where entry: "entry = (name, node)" by (cases entry)
  from Cons.prems(2) entry have rd: "readable node" "readable_names entries"
    by simp_all
  have rest: "fst (walk_names cfg w path entries s') = None \<and>
     watches (snd (walk_names cfg w path entries s')) =
       watches s' @ filter (\<lambda>q. filepath_Base q \<noteq> ''vendor'') (dirs_names path entries)" for s'
  proof (rule Cons.IH)
    fix n x p s''
    assume "(n, x) \<in> set entries"
    then show "fst (walk cfg w p x s'') = None \<and>
      watches (snd (walk cfg w p x s'')) =
        watches s'' @ filter (\<lambda>q. filepath_Base q \<noteq> ''vendor'') (dirs p x)"
      using Cons.prems(1) [of n x p s''] by simp
  next
    show "readable_names entries" by (rule rd(2))
  qed
  obtain r s1 where wk: "walk cfg w (filepath_Join path name) node s = (r, s1)"
    by (cases "walk cfg w (filepath_Join path name) node s")
  with Cons.prems(1) [of name node "filepath_Join path name" s] entry
  have r: "r = None"
    and s1: "watches s1 = watches s @
        filter (\<lambda>q. filepath_Base q \<noteq> ''vendor'') (dirs (filepath_Join path name) node)"
    by simp_all
  from rd(1) wk r s1 entry rest [of s1] show ?case
    by (cases node) (simp_all add: Let_def)
qed

lemma walk_watches:
  assumes "\<forall>p. watcher_Add w p = None" and "readable node"
  shows "fst (walk cfg w path node s) = None \<and>
     watches (snd (walk cfg w path node s)) =
       watches s @ filter (\<lambda>q. filepath_Base q \<noteq> ''vendor'') (dirs path node)"
  using assms(2)
proof (induction node arbitrary: path s)
  case File
  show ?case using walkFn_accepts [OF assms(1), of cfg path False s] by simp
next
  case (NoLstat e)
  then show ?case by simp
next
  case (NoReadDir e)
  then show ?case by simp
next
  case (Dir entries)
  from Dir.prems have rd: "readable_names entries" by simp
  have names: "fst (walk_names cfg w path entries s') = None \<and>
     watches (snd (walk_names cfg w path entries s')) =
       watches s' @ filter (\<lambda>q. filepath_Base q \<noteq> ''vendor'') (dirs_names path entries)" for s'
  proof (rule walk_names_watches_entries)
    fix name node p s''
    assume mem: "(name, node) \<in> set entries"
    with rd have "readable node" by (rule readable_names_mem)
    with mem show "fst (walk cfg w p node s'') = None \<and>
      watches (snd (walk cfg w p node s'')) =
        watches s'' @ filter (\<lambda>q. filepath_Base q \<noteq> ''vendor'') (dirs p node)"
      using Dir.IH [of "(name, node)" node p s''] by simp
  next
    show "readable_names entries" by (rule rd)
  qed
  obtain r s1 where fn: "walkFn cfg w path True None s = (r, s1)"
    by (cases "walkFn cfg w path True None s")
  with walkFn_accepts [OF assms(1), of cfg path True s]
  have "r = None"
    and "watches s1 = watches s @ (if filepath_Base path \<noteq> ''vendor'' then [path] else [])"
    by simp_all
  with fn names [of s1] show ?case by simp
qed

lemma initWatches_getwd_same:
  "initWatches_getwd cfg w newWatcher (Inr wd) tree = initWatches cfg w newWatcher wd tree"
  by (cases newWatcher) (simp_all add: initWatches_getwd_def initWatches_def Let_def)

text \<open>
  Claim C2, as stated, fails. In the tree \<^verbatim>\<open>/proj\<close> with \<^verbatim>\<open>a/x.go\<close>,
  \<^verbatim>\<open>vendor/lib/\<close> and \<^verbatim>\<open>vendor/y.go\<close> the walk leaves out \<^verbatim>\<open>/proj/vendor\<close>
  but enters it and registers \<^verbatim>\<open>/proj/vendor/lib\<close>.
\<close>

theorem C2_vendor_subtree_is_walked:
  "fst (initWatches demo_cfg (demo_world (Inr True) (Exited 0)) None ''/proj'' proj_tree) = None
   \<and> watches (snd (initWatches demo_cfg (demo_world (Inr True) (Exited 0)) None
                      ''/proj'' proj_tree))
       = [''/proj'', ''/proj/a'', ''/proj/vendor/lib'']"
  by code_simp

text \<open>
  Claim C2, amended. For every tree that can be walked (every entry can be inspected,
  every directory listed) and a watcher that accepts every path, the startup walk
  succeeds and registers exactly the directories of the tree, the root included, whose
  own base name is not \<^verbatim>\<open>vendor\<close>, in the order of the walk. A directory named
  \<^verbatim>\<open>vendor\<close> is left out but still entered, so the directories below it are
  registered like any other.
\<close>

theorem C2_watches_by_own_base_name:
  assumes "readable tree" and "\<forall>p. watcher_Add w p = None"
  shows "fst (initWatches cfg w None workingDir tree) = None
     \<and> watches (snd (initWatches cfg w None workingDir tree)) =
         filter (\<lambda>p. filepath_Base p \<noteq> ''vendor'') (dirs workingDir tree)"
proof -
  let ?s = "\<lparr>watches = [], trace = []\<rparr>"
  obtain r s1 where wk: "walk cfg w workingDir tree ?s = (r, s1)"
    by (cases "walk cfg w workingDir tree ?s")
  with walk_watches [OF assms(2,1), of cfg workingDir ?s]
  have "r = None"
    and "watches s1 = filter (\<lambda>p. filepath_Base p \<noteq> ''vendor'') (dirs workingDir tree)"
    by simp_all
  with wk assms(1) show ?thesis
    by (cases tree) (simp_all add: initWatches_def filepath_Walk_def Let_def)
qed

theorem C2_watches_by_own_base_name_witness:
  "readable proj_tree
   \<and> watches (snd (initWatches demo_cfg (demo_world (Inr True) (Exited 0)) None
                      ''/proj'' proj_tree))
       = filter (\<lambda>p. filepath_Base p \<noteq> ''vendor'') (dirs ''/proj'' proj_tree)"
proof -
  have rd: "readable proj_tree"
    by (simp add: proj_tree_def)
  have ok: "\<forall>p. watcher_Add (demo_world (Inr True) (Exited 0)) p = None"
    by (simp add: demo_world_def)
  from C2_watches_by_own_base_name [OF rd ok, of demo_cfg "''/proj''"] rd
  show ?thesis by simp
qed

end
